theory Spec2Isabelle
  imports Complex_Main "HOL-Library.Sublist" "HOL-Library.Multiset"
begin

section \<open>Strings\<close>

text \<open>
  A JavaScript string is a sequence of UTF-16 code units. The model keeps the code units
  \<open>0..255\<close> (ASCII and Latin-1), one \<^typ>\<open>char\<close> each. On that range
  \<^verbatim>\<open>toLowerCase\<close> maps \<open>A..Z\<close> and the Latin-1 capitals \<open>U+00C0..U+00DE\<close>
  (without the multiplication sign \<open>U+00D7\<close>) to the code unit 32 higher and keeps every
  other code unit; the white space that \<^verbatim>\<open>trim\<close> and the regular-expression class
  \<^verbatim>\<open>\s\<close> recognise is TAB, LF, VT, FF, CR, SPACE and NBSP.
\<close>

definition toLowerChar :: "char \<Rightarrow> char" where
  "toLowerChar c =
     (let n = (of_char c :: int)
      in if (65 \<le> n \<and> n \<le> 90) \<or> (192 \<le> n \<and> n \<le> 222 \<and> n \<noteq> 215)
         then char_of (n + 32) else c)"

definition toLowerCase :: "string \<Rightarrow> string" where
  "toLowerCase s = map toLowerChar s"

definition isSpace :: "char \<Rightarrow> bool" where
  "isSpace c = ((of_char c :: int) \<in> {9, 10, 11, 12, 13, 32, 160})"

definition trim :: "string \<Rightarrow> string" where
  "trim s = rev (dropWhile isSpace (rev (dropWhile isSpace s)))"

text \<open>\<^verbatim>\<open>s.includes(t)\<close>: \<open>t\<close> occurs in \<open>s\<close> as a contiguous run.\<close>

definition str_includes :: "string \<Rightarrow> string \<Rightarrow> bool" where
  "str_includes s t = sublist t s"

text \<open>\<^verbatim>\<open>s.startsWith(t)\<close>.\<close>

definition startsWith :: "string \<Rightarrow> string \<Rightarrow> bool" where
  "startsWith s t = prefix t s"

text \<open>
  \<^verbatim>\<open>s.replace(t, r)\<close> with a string pattern \<open>t\<close> and a replacement \<open>r\<close> free of
  \<^verbatim>\<open>$\<close>: the first occurrence of \<open>t\<close> is replaced, a string without one is returned
  as it is.
\<close>

fun replaceFirst :: "string \<Rightarrow> string \<Rightarrow> string \<Rightarrow> string" where
  "replaceFirst [] t r = (if t = [] then r else [])"
| "replaceFirst (c # cs) t r =
     (if prefix t (c # cs) then r @ drop (length t) (c # cs)
      else c # replaceFirst cs t r)"

text \<open>\<^verbatim>\<open>s.split('\n')\<close>: the pieces between line feeds; never an empty array.\<close>

fun splitLines :: "string \<Rightarrow> string list" where
  "splitLines [] = [[]]"
| "splitLines (c # cs) =
     (if c = CHR 0x0A then [] # splitLines cs
      else (case splitLines cs of l # ls \<Rightarrow> (c # l) # ls | [] \<Rightarrow> [[c]]))"

section \<open>Regular expressions\<close>

text \<open>
  The regular-expression literals of the source are written as terms of \<open>regex\<close> and run
  by a backtracking matcher that returns the matches in the order an ECMAScript engine
  tries them: the left alternative before the right one, a greedy quantifier taking as
  many iterations as it can before giving characters back, and an iteration that consumes
  nothing refused. The first element of the list is the match the engine returns.
\<close>

datatype regex =
    Cls "char \<Rightarrow> bool"          \<comment> \<open>one character of a class\<close>
  | Eps                          \<comment> \<open>the empty pattern\<close>
  | Bol                          \<comment> \<open>\<^verbatim>\<open>^\<close>, without the \<^verbatim>\<open>m\<close> flag\<close>
  | Eol                          \<comment> \<open>\<^verbatim>\<open>$\<close>, without the \<^verbatim>\<open>m\<close> flag\<close>
  | Seq regex regex
  | Alt regex regex
  | Star regex                   \<comment> \<open>greedy \<^verbatim>\<open>*\<close>\<close>
  | Grp nat regex                \<comment> \<open>capture group number \<open>k\<close>\<close>

text \<open>
  A matcher state: the index reached in the input, the input from there on, and the
  captures made so far (the latest first).
\<close>

type_synonym mstate = "nat \<times> string \<times> (nat \<times> string) list"

fun rmatch :: "regex \<Rightarrow> mstate \<Rightarrow> mstate list" where
  "rmatch (Cls p) (i, s, caps) =
     (case s of [] \<Rightarrow> [] | c # cs \<Rightarrow> if p c then [(Suc i, cs, caps)] else [])"
| "rmatch Eps st = [st]"
| "rmatch Bol (i, s, caps) = (if i = 0 then [(i, s, caps)] else [])"
| "rmatch Eol (i, s, caps) = (if s = [] then [(i, s, caps)] else [])"
| "rmatch (Seq a b) st = concat (map (rmatch b) (rmatch a st))"
| "rmatch (Alt a b) st = rmatch a st @ rmatch b st"
| "rmatch (Star r) (i, s, caps) =
     concat (map (\<lambda>(j, t, c). if length t < length s then rmatch (Star r) (j, t, c) else [])
               (rmatch r (i, s, caps)))
     @ [(i, s, caps)]"
| "rmatch (Grp k r) (i, s, caps) =
     map (\<lambda>(j, t, c). (j, t, (k, take (j - i) s) # c)) (rmatch r (i, s, caps))"

text \<open>The quantifiers \<^verbatim>\<open>?\<close>, \<^verbatim>\<open>+\<close> and \<^verbatim>\<open>{n}\<close>, and a literal character.\<close>

definition Opt :: "regex \<Rightarrow> regex" where
  "Opt r = Alt r Eps"

definition Plus :: "regex \<Rightarrow> regex" where
  "Plus r = Seq r (Star r)"

fun Rep :: "nat \<Rightarrow> regex \<Rightarrow> regex" where
  "Rep 0 r = Eps"
| "Rep (Suc n) r = Seq r (Rep n r)"

definition Lit :: "char \<Rightarrow> regex" where
  "Lit c = Cls (\<lambda>x. x = c)"

text \<open>A literal letter under the \<^verbatim>\<open>i\<close> flag, and a literal word under it.\<close>

definition LitI :: "char \<Rightarrow> regex" where
  "LitI c = Cls (\<lambda>x. toLowerChar x = toLowerChar c)"

fun StrI :: "string \<Rightarrow> regex" where
  "StrI [] = Eps"
| "StrI (c # cs) = Seq (LitI c) (StrI cs)"

text \<open>The character classes \<^verbatim>\<open>\d\<close>, \<^verbatim>\<open>\w\<close>, \<^verbatim>\<open>\s\<close> and \<^verbatim>\<open>.\<close>.\<close>

definition isDigit :: "char \<Rightarrow> bool" where
  "isDigit c = (let n = (of_char c :: int) in 48 \<le> n \<and> n \<le> 57)"

definition isWord :: "char \<Rightarrow> bool" where
  "isWord c =
     (let n = (of_char c :: int)
      in (48 \<le> n \<and> n \<le> 57) \<or> (65 \<le> n \<and> n \<le> 90) \<or> (97 \<le> n \<and> n \<le> 122) \<or> n = 95)"

definition isDot :: "char \<Rightarrow> bool" where
  "isDot c = (c \<noteq> CHR 0x0A \<and> c \<noteq> CHR 0x0D)"

abbreviation D :: regex where "D \<equiv> Cls isDigit"
abbreviation W :: regex where "W \<equiv> Cls isWord"
abbreviation S :: regex where "S \<equiv> Cls isSpace"

text \<open>
  \<^verbatim>\<open>s.match(r)\<close> for a regular expression without the \<^verbatim>\<open>g\<close> flag: the match at
  the leftmost index that has one. The result is the index where the match starts, the
  matched text \<^verbatim>\<open>m[0]\<close> and the captures.
\<close>

fun searchFrom :: "regex \<Rightarrow> nat \<Rightarrow> string \<Rightarrow> (nat \<times> string \<times> (nat \<times> string) list) option" where
  "searchFrom r i s =
     (case rmatch r (i, s, []) of
        (j, t, caps) # _ \<Rightarrow> Some (i, take (j - i) s, caps)
      | [] \<Rightarrow> (case s of [] \<Rightarrow> None | c # cs \<Rightarrow> searchFrom r (Suc i) cs))"

declare searchFrom.simps [simp del]

definition match :: "string \<Rightarrow> regex \<Rightarrow> (nat \<times> string \<times> (nat \<times> string) list) option" where
  "match s r = searchFrom r 0 s"

text \<open>\<^verbatim>\<open>m[k]\<close> for a capture group that took part in the match.\<close>

definition group :: "(nat \<times> string) list \<Rightarrow> nat \<Rightarrow> string" where
  "group caps k = (case map_of caps k of Some g \<Rightarrow> g | None \<Rightarrow> [])"

text \<open>\<^verbatim>\<open>s.replace(r, '')\<close> for a regular expression without the \<^verbatim>\<open>g\<close> flag.\<close>

definition removeMatch :: "string \<Rightarrow> regex \<Rightarrow> string" where
  "removeMatch s r =
     (case match s r of
        None \<Rightarrow> s
      | Some (i, m, caps) \<Rightarrow> take i s @ drop (i + length m) s)"

fun Seqs :: "regex list \<Rightarrow> regex" where
  "Seqs [] = Eps"
| "Seqs (r # rs) = Seq r (Seqs rs)"

section \<open>JavaScript values\<close>

text \<open>
  The values that \<^verbatim>\<open>JSON.parse\<close> returns. A number is a double; the model keeps its
  rational value (an overflowing literal, which parses to \<^verbatim>\<open>Infinity\<close>, behaves in
  everything modelled here as a number beyond the range of time values). An object is the
  list of its own properties. \<^verbatim>\<open>undefined\<close> is \<open>None\<close> of \<open>json option\<close>.
\<close>

datatype json =
    JNull
  | JBool bool
  | JNum rat
  | JStr string
  | JArr "json list"
  | JObj "(string \<times> json) list"

datatype js_error = TypeError

fun truthy :: "json \<Rightarrow> bool" where
  "truthy JNull = False"
| "truthy (JBool b) = b"
| "truthy (JNum x) = (x \<noteq> 0)"
| "truthy (JStr s) = (s \<noteq> [])"
| "truthy (JArr xs) = True"
| "truthy (JObj kvs) = True"

text \<open>\<^verbatim>\<open>a || b\<close>: \<open>a\<close> when it is truthy, \<open>b\<close> otherwise.\<close>

definition lor :: "json option \<Rightarrow> json option \<Rightarrow> json option" where
  "lor a b = (case a of Some v \<Rightarrow> if truthy v then a else b | None \<Rightarrow> b)"

text \<open>\<^verbatim>\<open>a || b\<close> where \<open>b\<close> is not \<^verbatim>\<open>undefined\<close>.\<close>

definition lorv :: "json option \<Rightarrow> json \<Rightarrow> json" where
  "lorv a b = (case a of Some v \<Rightarrow> if truthy v then v else b | None \<Rightarrow> b)"

text \<open>
  \<^verbatim>\<open>parsed.k\<close> on a value other than \<^verbatim>\<open>null\<close>, for a name \<open>k\<close> that no prototype
  defines: the own property of an object, \<^verbatim>\<open>undefined\<close> otherwise.
\<close>

fun getProp :: "json \<Rightarrow> string \<Rightarrow> json option" where
  "getProp (JObj kvs) k = map_of kvs k"
| "getProp v k = None"

text \<open>
  The operations of the platform that the source calls and the repository does not
  define: \<^verbatim>\<open>JSON.parse\<close> (\<open>None\<close> when it throws), \<^verbatim>\<open>JSON.stringify\<close> on a parsed
  value, \<^verbatim>\<open>Date.parse\<close> (\<open>None\<close> for \<^verbatim>\<open>NaN\<close>), the text of a number,
  \<^verbatim>\<open>toISOString\<close> of a valid time value, and the wall clock: \<open>Date_now P k\<close> is what
  the \<open>k\<close>-th reading of the clock returns.
\<close>

record platform =
  JSON_parse :: "string \<Rightarrow> json option"
  JSON_stringify :: "json \<Rightarrow> string"
  Date_parse :: "string \<Rightarrow> int option"
  Number_toString :: "rat \<Rightarrow> string"
  toISOString :: "int \<Rightarrow> string"
  Date_now :: "nat \<Rightarrow> int"

text \<open>\<^verbatim>\<open>xs.join(',')\<close> over texts whose computation may have thrown.\<close>

fun joinE :: "(js_error + string) list \<Rightarrow> js_error + string" where
  "joinE [] = Inr []"
| "joinE [x] = x"
| "joinE (x # y # ys) =
     (case x of
        Inl e \<Rightarrow> Inl e
      | Inr s \<Rightarrow> (case joinE (y # ys) of Inl e \<Rightarrow> Inl e | Inr t \<Rightarrow> Inr (s @ '','' @ t)))"

text \<open>
  \<^verbatim>\<open>String(v)\<close>. An array is joined, with \<^verbatim>\<open>null\<close> elements empty. An object is
  converted by its \<^verbatim>\<open>toString\<close> method and then its \<^verbatim>\<open>valueOf\<close> method: an own
  property \<^verbatim>\<open>toString\<close> of a parsed object is never callable, the inherited
  \<^verbatim>\<open>valueOf\<close> returns the object itself, so such an object has no primitive value and
  the conversion throws; without that property the inherited \<^verbatim>\<open>toString\<close> answers.
\<close>

fun jsToString :: "platform \<Rightarrow> json \<Rightarrow> js_error + string" where
  "jsToString P JNull = Inr ''null''"
| "jsToString P (JBool b) = Inr (if b then ''true'' else ''false'')"
| "jsToString P (JNum x) = Inr (Number_toString P x)"
| "jsToString P (JStr s) = Inr s"
| "jsToString P (JArr xs) =
     joinE (map (\<lambda>x. case x of JNull \<Rightarrow> Inr [] | _ \<Rightarrow> jsToString P x) xs)"
| "jsToString P (JObj kvs) =
     (if map_of kvs ''toString'' \<noteq> None then Inl TypeError else Inr ''[object Object]'')"

text \<open>\<^verbatim>\<open>TimeClip\<close>: a number within the range of time values, truncated to an integer.\<close>

definition timeClip :: "rat \<Rightarrow> int option" where
  "timeClip x =
     (if \<bar>x\<bar> > 8640000000000000 then None
      else Some (if x \<ge> 0 then \<lfloor>x\<rfloor> else \<lceil>x\<rceil>))"

text \<open>
  \<^verbatim>\<open>new Date(v).getTime()\<close>, with \<open>None\<close> for \<^verbatim>\<open>NaN\<close>: a string is parsed, a number
  clipped, an array or object first converted to its primitive value (with the default
  hint that is \<^verbatim>\<open>valueOf\<close> before \<^verbatim>\<open>toString\<close>, which for parsed values ends as
  \<^verbatim>\<open>String(v)\<close> does).
\<close>

fun getTime :: "platform \<Rightarrow> json \<Rightarrow> js_error + int option" where
  "getTime P (JStr s) = Inr (Date_parse P s)"
| "getTime P (JNum x) = Inr (timeClip x)"
| "getTime P (JBool b) = Inr (Some (if b then 1 else 0))"
| "getTime P JNull = Inr (Some 0)"
| "getTime P v = (case jsToString P v of Inl e \<Rightarrow> Inl e | Inr s \<Rightarrow> Inr (Date_parse P s))"

text \<open>The decimal text of an integer, as a template literal renders it.\<close>

function showDigits :: "int \<Rightarrow> string" where
  "showDigits n =
     (if n < 10 then [char_of (48 + n)]
      else showDigits (n div 10) @ [char_of (48 + n mod 10)])"
  by pat_completeness auto
termination
  by (relation "measure nat") auto

declare showDigits.simps [simp del]

definition showInt :: "int \<Rightarrow> string" where
  "showInt i = (if i < 0 then CHR ''-'' # showDigits (- i) else showDigits i)"

section \<open>Data model (types/log.ts)\<close>

datatype LogLevel = Debug | Info | Warn | Error | Fatal

text \<open>
  \<^verbatim>\<open>LogEntry\<close>. The field \<^verbatim>\<open>id\<close> is \<open>idE\<close> here. The fields that the structured
  parser fills from the decoded record (\<^verbatim>\<open>dt\<close>, \<^verbatim>\<open>pid\<close>, \<^verbatim>\<open>hostname\<close>,
  \<^verbatim>\<open>message_field\<close>, \<^verbatim>\<open>data\<close>) hold whatever value the record has there, so they
  are values of \<open>json\<close>; an optional field that is absent is \<open>None\<close>.
\<close>

record LogEntry =
  idE :: string
  dt :: json
  level :: LogLevel
  pid :: "json option"
  hostname :: "json option"
  message :: string
  message_field :: "json option"
  data :: "json option"
  raw :: "string option"

text \<open>
  \<^verbatim>\<open>ParsedLog\<close>: \<open>levels\<close> is the sorted array of the level names seen, \<open>dateRange\<close>
  the time values of \<^verbatim>\<open>start\<close> and \<^verbatim>\<open>end\<close>.
\<close>

record ParsedLog =
  entries :: "LogEntry list"
  levels :: "LogLevel list"
  dateRange :: "(int \<times> int) option"

record LevelCounts =
  debug :: nat
  info :: nat
  warn :: nat
  error :: nat
  fatal :: nat

text \<open>\<^verbatim>\<open>TimelineBucket\<close>: \<open>timestamp\<close> is the time value of the date (\<open>None\<close>: invalid).\<close>

record TimelineBucket =
  timestamp :: "int option"
  count :: nat
  byLevel :: LevelCounts

section \<open>Level classifier\<close>

definition detectLogLevel :: "string \<Rightarrow> LogLevel" where
  "detectLogLevel text =
     (let lowerText = toLowerCase text
      in if str_includes lowerText ''fatal'' \<or> str_includes lowerText ''critical'' then Fatal
         else if str_includes lowerText ''error'' \<or> str_includes lowerText ''err]''
                 \<or> lowerText = ''error'' then Error
         else if str_includes lowerText ''warn'' \<or> str_includes lowerText ''warning'' then Warn
         else if str_includes lowerText ''debug'' \<or> str_includes lowerText ''dbg'' then Debug
         else if str_includes lowerText ''info'' then Info
         else Info)"


section \<open>Identifiers\<close>

text \<open>
  The module keeps \<^verbatim>\<open>idCounter\<close>. It is a double: below \<open>2 ^ 53\<close> the increment is
  exact, and at \<open>2 ^ 53\<close> the sum rounds back to \<open>2 ^ 53\<close>. \<open>clockReads\<close> counts the
  readings of the wall clock made so far.
\<close>

record pstate =
  idCounter :: int
  clockReads :: nat

definition incr :: "int \<Rightarrow> int" where
  "incr n = (if n < 2 ^ 53 then n + 1 else n)"

definition generateId :: "platform \<Rightarrow> pstate \<Rightarrow> string \<times> pstate" where
  "generateId P st =
     (''log-'' @ showInt (Date_now P (clockReads st)) @ ''-'' @ showInt (idCounter st),
      st\<lparr>idCounter := incr (idCounter st), clockReads := Suc (clockReads st)\<rparr>)"

text \<open>\<^verbatim>\<open>new Date().toISOString()\<close>: one reading of the clock.\<close>

definition nowISOString :: "platform \<Rightarrow> pstate \<Rightarrow> string \<times> pstate" where
  "nowISOString P st =
     (toISOString P (Date_now P (clockReads st)), st\<lparr>clockReads := Suc (clockReads st)\<rparr>)"

section \<open>Timestamp extractor\<close>

definition dateDigits :: "regex list" where
  "dateDigits = [Rep 4 D, Lit CHR ''-'', Rep 2 D, Lit CHR ''-'', Rep 2 D]"

definition timeDigits :: "regex list" where
  "timeDigits = [Rep 2 D, Lit CHR '':'', Rep 2 D, Lit CHR '':'', Rep 2 D]"

definition fraction :: regex where
  "fraction = Opt (Grp 1 (Seq (Lit CHR ''.'') (Plus D)))"

text \<open>\<^verbatim>\<open>/\d{4}-\d{2}-\d{2}T\d{2}:\d{2}:\d{2}(\.\d+)?(Z|[+-]\d{2}:?\d{2})?/\<close>\<close>

definition isoRegex :: regex where
  "isoRegex =
     Seqs (dateDigits @ [Lit CHR ''T''] @ timeDigits @
       [fraction,
        Opt (Grp 2 (Alt (Lit CHR ''Z'')
          (Seqs [Cls (\<lambda>c. c = CHR ''+'' \<or> c = CHR ''-''), Rep 2 D, Opt (Lit CHR '':''), Rep 2 D])))])"

text \<open>\<^verbatim>\<open>/\d{4}-\d{2}-\d{2}\s+\d{2}:\d{2}:\d{2}(\.\d+)?/\<close>\<close>

definition commonRegex :: regex where
  "commonRegex = Seqs (dateDigits @ [Plus S] @ timeDigits @ [fraction])"

text \<open>\<^verbatim>\<open>/\d{2}\/\w{3}\/\d{4}:\d{2}:\d{2}:\d{2}/\<close>\<close>

definition apacheRegex :: regex where
  "apacheRegex =
     Seqs [Rep 2 D, Lit CHR ''/'', Rep 3 W, Lit CHR ''/'', Rep 4 D, Lit CHR '':'',
           Rep 2 D, Lit CHR '':'', Rep 2 D, Lit CHR '':'', Rep 2 D]"

text \<open>\<^verbatim>\<open>/(\d{2})\/(\w{3})\/(\d{4}):(\d{2}):(\d{2}):(\d{2})/\<close>\<close>

definition apachePartsRegex :: regex where
  "apachePartsRegex =
     Seqs [Grp 1 (Rep 2 D), Lit CHR ''/'', Grp 2 (Rep 3 W), Lit CHR ''/'', Grp 3 (Rep 4 D),
           Lit CHR '':'', Grp 4 (Rep 2 D), Lit CHR '':'', Grp 5 (Rep 2 D), Lit CHR '':'',
           Grp 6 (Rep 2 D)]"

definition months :: "(string \<times> string) list" where
  "months =
     [(''Jan'', ''01''), (''Feb'', ''02''), (''Mar'', ''03''), (''Apr'', ''04''),
      (''May'', ''05''), (''Jun'', ''06''), (''Jul'', ''07''), (''Aug'', ''08''),
      (''Sep'', ''09''), (''Oct'', ''10''), (''Nov'', ''11''), (''Dec'', ''12'')]"

text \<open>\<^verbatim>\<open>${months[k]}\<close>: a name that is not in the table renders as \<^verbatim>\<open>undefined\<close>.\<close>

definition monthText :: "string \<Rightarrow> string" where
  "monthText k = (case map_of months k of Some m \<Rightarrow> m | None \<Rightarrow> ''undefined'')"

definition extractTimestamp :: "string \<Rightarrow> string option" where
  "extractTimestamp line =
     (case match line isoRegex of
        Some (i, m, caps) \<Rightarrow> Some m
      | None \<Rightarrow>
     (case match line commonRegex of
        Some (i, m, caps) \<Rightarrow> Some (replaceFirst m '' '' ''T'' @ ''Z'')
      | None \<Rightarrow>
     (case match line apacheRegex of
        Some (i, m, caps) \<Rightarrow>
          (case match m apachePartsRegex of
             Some (j, m', parts) \<Rightarrow>
               Some (group parts 3 @ ''-'' @ monthText (group parts 2) @ ''-'' @ group parts 1
                     @ ''T'' @ group parts 4 @ '':'' @ group parts 5 @ '':'' @ group parts 6
                     @ ''Z'')
           | None \<Rightarrow> None)
      | None \<Rightarrow> None)))"


section \<open>Structured-data line parser\<close>

text \<open>
  Everything in \<^verbatim>\<open>parseJsonLog\<close> runs inside \<^verbatim>\<open>try\<close>, and \<^verbatim>\<open>catch\<close> returns
  \<^verbatim>\<open>null\<close>: a line that does not decode, a decoded \<^verbatim>\<open>null\<close> (whose property read
  throws) and a level value without a text all end as \<open>None\<close>. The clock is read for the
  default timestamp before \<^verbatim>\<open>generateId\<close> reads it.
\<close>

definition parseJsonLog :: "platform \<Rightarrow> pstate \<Rightarrow> string \<Rightarrow> LogEntry option \<times> pstate" where
  "parseJsonLog P st line =
     (case JSON_parse P line of
        None \<Rightarrow> (None, st)
      | Some JNull \<Rightarrow> (None, st)
      | Some parsed \<Rightarrow>
          (let levelRaw = lorv (foldl lor (getProp parsed ''level'')
                             [getProp parsed ''severity'', getProp parsed ''log_level'',
                              getProp parsed ''loglevel'']) (JStr ''info'')
           in case jsToString P levelRaw of
                Inl e \<Rightarrow> (None, st)
              | Inr levelText \<Rightarrow>
                  (let level = detectLogLevel levelText;
                       found = foldl lor (getProp parsed ''dt'')
                             [getProp parsed ''timestamp'', getProp parsed ''time'',
                              getProp parsed ''@timestamp'', getProp parsed ''date'',
                              getProp parsed ''datetime''];
                       (timestamp, st1) =
                         (case found of
                            Some v \<Rightarrow>
                              if truthy v then (v, st)
                              else (let (iso, st') = nowISOString P st in (JStr iso, st'))
                          | None \<Rightarrow> (let (iso, st') = nowISOString P st in (JStr iso, st')));
                       message = lorv (foldl lor (getProp parsed ''message'')
                             [getProp parsed ''msg'', getProp parsed ''text'',
                              getProp parsed ''log'', getProp parsed ''body''])
                             (JStr (JSON_stringify P parsed));
                       (newId, st2) = generateId P st1
                   in (Some \<lparr>idE = newId, dt = timestamp, level = level,
                             pid = getProp parsed ''pid'',
                             hostname = lor (getProp parsed ''hostname'') (getProp parsed ''host''),
                             message = (case message of JStr m \<Rightarrow> m | v \<Rightarrow> JSON_stringify P v),
                             message_field = getProp parsed ''message_field'',
                             data = Some parsed, raw = Some line\<rparr>, st2))))"

section \<open>Bracketed structured-text parser\<close>

definition notBracket :: "char \<Rightarrow> bool" where
  "notBracket c = (c \<noteq> CHR '']'')"

text \<open>\<^verbatim>\<open>/^\[([^\]]+)\]\s*\[([^\]]+)\]\s*(.+)$/\<close>\<close>

definition structuredRegex :: regex where
  "structuredRegex =
     Seqs [Bol, Lit CHR ''['', Grp 1 (Plus (Cls notBracket)), Lit CHR '']'', Star S,
           Lit CHR ''['', Grp 2 (Plus (Cls notBracket)), Lit CHR '']'', Star S,
           Grp 3 (Plus (Cls isDot)), Eol]"

definition parseStructuredTextLog ::
    "platform \<Rightarrow> pstate \<Rightarrow> string \<Rightarrow> LogEntry option \<times> pstate" where
  "parseStructuredTextLog P st line =
     (case match line structuredRegex of
        None \<Rightarrow> (None, st)
      | Some (i, m, caps) \<Rightarrow>
          (let timestampPart = group caps 1;
               levelPart = group caps 2;
               rest = group caps 3;
               level = detectLogLevel levelPart;
               (data, message) =
                 (if startsWith (trim rest) ''{'' then
                    (case JSON_parse P rest of
                       None \<Rightarrow> (None, rest)
                     | Some JNull \<Rightarrow> (Some JNull, rest)
                     | Some parsed \<Rightarrow>
                         (let msgValue = lorv (lor (getProp parsed ''message'')
                                                  (getProp parsed ''msg'')) (JStr rest)
                          in (Some parsed,
                              case msgValue of JStr m \<Rightarrow> m | v \<Rightarrow> JSON_stringify P v)))
                  else (None, rest));
               (newId, st1) = generateId P st
           in (Some \<lparr>idE = newId,
                     dt = JStr (if str_includes timestampPart ''T'' then timestampPart
                                else replaceFirst timestampPart '' '' ''T'' @ ''Z''),
                     level = level, pid = None, hostname = None, message = message,
                     message_field = None, data = data, raw = Some line\<rparr>, st1)))"

section \<open>Plain-text parser\<close>

text \<open>\<^verbatim>\<open>/^\d{4}-\d{2}-\d{2}\s+\d{2}:\d{2}:\d{2}(\.\d+)?\s*/\<close>\<close>

definition leadingDateRegex :: regex where
  "leadingDateRegex = Seqs ([Bol] @ dateDigits @ [Plus S] @ timeDigits @ [fraction, Star S])"

text \<open>\<^verbatim>\<open>/^\s*\[(INFO|WARN|WARNING|ERROR|DEBUG|FATAL|CRITICAL)\]\s*/i\<close>\<close>

definition levelTagRegex :: regex where
  "levelTagRegex =
     Seqs [Bol, Star S, Lit CHR ''['',
           Grp 1 (Alt (StrI ''INFO'') (Alt (StrI ''WARN'') (Alt (StrI ''WARNING'')
                 (Alt (StrI ''ERROR'') (Alt (StrI ''DEBUG'') (Alt (StrI ''FATAL'')
                 (StrI ''CRITICAL''))))))),
           Lit CHR '']'', Star S]"

text \<open>The message of a plain line, before the fallback to the line itself.\<close>

definition cleanMessage :: "string \<Rightarrow> string" where
  "cleanMessage line =
     (let message =
            (case extractTimestamp line of
               None \<Rightarrow> line
             | Some ts \<Rightarrow>
                 if ts = [] then line
                 else trim (removeMatch (trim (replaceFirst line ts [])) leadingDateRegex))
      in trim (removeMatch message levelTagRegex))"

definition parsePlainTextLog :: "platform \<Rightarrow> pstate \<Rightarrow> string \<Rightarrow> LogEntry \<times> pstate" where
  "parsePlainTextLog P st line =
     (let lvl = detectLogLevel line;
          msg = cleanMessage line;
          (newId, st1) = generateId P st;
          (stamp, st2) =
            (case extractTimestamp line of
               None \<Rightarrow> nowISOString P st1
             | Some t \<Rightarrow> if t = [] then nowISOString P st1 else (t, st1))
      in (\<lparr>idE = newId, dt = JStr stamp, level = lvl, pid = None, hostname = None,
           message = (if msg \<noteq> [] then msg else line),
           message_field = None, data = None, raw = Some line\<rparr>, st2))"

section \<open>Line dispatcher\<close>

text \<open>The cascade of the loop body: structured data, bracketed text, plain text.\<close>

definition parseLine :: "platform \<Rightarrow> pstate \<Rightarrow> string \<Rightarrow> LogEntry \<times> pstate" where
  "parseLine P st line =
     (let (entry, st1) =
            (if startsWith (trim line) ''{'' then parseJsonLog P st line else (None, st))
      in case entry of
           Some e \<Rightarrow> (e, st1)
         | None \<Rightarrow>
             (case parseStructuredTextLog P st1 line of
                (Some e, st2) \<Rightarrow> (e, st2)
              | (None, st2) \<Rightarrow> parsePlainTextLog P st2 line))"

definition lowerDate :: "int option \<Rightarrow> int \<Rightarrow> int option" where
  "lowerDate minDate t = (case minDate of None \<Rightarrow> Some t | Some m \<Rightarrow> if t < m then Some t else Some m)"

definition upperDate :: "int option \<Rightarrow> int \<Rightarrow> int option" where
  "upperDate maxDate t = (case maxDate of None \<Rightarrow> Some t | Some m \<Rightarrow> if t > m then Some t else Some m)"

text \<open>
  The loop of \<^verbatim>\<open>parseLogFile\<close> over the retained lines, with its four accumulators.
  \<^verbatim>\<open>new Date(entry.dt)\<close> is outside every \<^verbatim>\<open>try\<close>: when it throws, the loop and
  \<^verbatim>\<open>parseLogFile\<close> end with that error. The state is returned in both cases.
\<close>

fun parseLoop ::
    "platform \<Rightarrow> string list \<Rightarrow> LogEntry list \<Rightarrow> LogLevel list \<Rightarrow> int option \<Rightarrow> int option
      \<Rightarrow> pstate
      \<Rightarrow> (js_error + LogEntry list \<times> LogLevel list \<times> int option \<times> int option) \<times> pstate" where
  "parseLoop P [] es levelsSet minDate maxDate st = (Inr (es, levelsSet, minDate, maxDate), st)"
| "parseLoop P (line # lines) es levelsSet minDate maxDate st =
     (let (entry, st') = parseLine P st line;
          es' = es @ [entry];
          levelsSet' = List.insert (level entry) levelsSet
      in case getTime P (dt entry) of
           Inl e \<Rightarrow> (Inl e, st')
         | Inr None \<Rightarrow> parseLoop P lines es' levelsSet' minDate maxDate st'
         | Inr (Some t) \<Rightarrow>
             parseLoop P lines es' levelsSet' (lowerDate minDate t) (upperDate maxDate t) st')"

text \<open>The level names in the order of \<^verbatim>\<open>sort()\<close>.\<close>

definition sortLevels :: "LogLevel list \<Rightarrow> LogLevel list" where
  "sortLevels ls = filter (\<lambda>l. l \<in> set ls) [Debug, Error, Fatal, Info, Warn]"

definition retainedLines :: "string \<Rightarrow> string list" where
  "retainedLines content = filter (\<lambda>line. trim line \<noteq> []) (splitLines content)"

definition parseLogFile :: "platform \<Rightarrow> pstate \<Rightarrow> string \<Rightarrow> (js_error + ParsedLog) \<times> pstate" where
  "parseLogFile P st content =
     (case parseLoop P (retainedLines content) [] [] None None st of
        (Inl e, st') \<Rightarrow> (Inl e, st')
      | (Inr (es, levelsSet, minDate, maxDate), st') \<Rightarrow>
          (Inr \<lparr>entries = es, levels = sortLevels levelsSet,
                dateRange = (case (minDate, maxDate) of
                               (Some a, Some b) \<Rightarrow> Some (a, b)
                             | _ \<Rightarrow> None)\<rparr>, st'))"

section \<open>Filter engine\<close>

definition keeps :: "platform \<Rightarrow> string \<Rightarrow> LogLevel list \<Rightarrow> LogEntry \<Rightarrow> bool" where
  "keeps P search lvls entry =
     (if lvls \<noteq> [] \<and> level entry \<notin> set lvls then False
      else if search \<noteq> [] then
        (let searchLower = toLowerCase search;
             matchesMessage = str_includes (toLowerCase (message entry)) searchLower;
             matchesData =
               (case data entry of
                  None \<Rightarrow> False
                | Some d \<Rightarrow> truthy d \<and> str_includes (toLowerCase (JSON_stringify P d)) searchLower)
         in if \<not> matchesMessage \<and> \<not> matchesData then False else True)
      else True)"

definition filterLogs :: "platform \<Rightarrow> LogEntry list \<Rightarrow> string \<Rightarrow> LogLevel list \<Rightarrow> LogEntry list" where
  "filterLogs P es search lvls = filter (keeps P search lvls) es"


section \<open>Timeline bucketizer (components/Timeline.tsx)\<close>

text \<open>
  The numbers of the bucketizer are doubles. Time values and their differences are
  integers that a double holds exactly; the quotients are modelled by exact rational
  division, so a bucket index next to a bucket boundary may differ from the rounded one.
\<close>


text \<open>\<^verbatim>\<open>.filter(d => !isNaN(d))\<close>\<close>

definition validDates :: "int option list \<Rightarrow> int list" where
  "validDates ts = concat (map (\<lambda>t. case t of None \<Rightarrow> [] | Some d \<Rightarrow> [d]) ts)"










section \<open>Notions of the specification\<close>

text \<open>
  "The text contains the word, case-insensitively", stated letter by letter: some run of
  the text agrees with the word up to the case of each letter.
\<close>

definition sameLetter :: "char \<Rightarrow> char \<Rightarrow> bool" where
  "sameLetter a b = (toLowerChar a = toLowerChar b)"

fun startsWithCI :: "string \<Rightarrow> string \<Rightarrow> bool" where
  "startsWithCI s [] = True"
| "startsWithCI [] (w # ws) = False"
| "startsWithCI (c # cs) (w # ws) = (sameLetter c w \<and> startsWithCI cs ws)"

fun containsCI :: "string \<Rightarrow> string \<Rightarrow> bool" where
  "containsCI [] w = (w = [])"
| "containsCI (c # cs) w = (startsWithCI (c # cs) w \<or> containsCI cs w)"

section \<open>Concrete platform and inputs\<close>

text \<open>
  A platform tabulated at the arguments of the examples below, with the values an
  ECMAScript engine returns there: the decoded records of two lines, their texts, the
  time values of four date strings (any other string of the examples is not a date),
  and a clock that stands at \<open>2026-01-09T20:52:09.651Z\<close> for every reading. Outside
  the tabulated arguments \<open>JSON_parse\<close> and \<open>Date_parse\<close> answer \<open>None\<close> and the
  others the empty text; no example reaches those.
\<close>

definition diskLowLine :: string where
  \<open>diskLowLine = ''{"level":"warn","message":"disk low","dt":"2024-01-01T00:00:00Z"}''\<close>

definition diskLowRecord :: json where
  "diskLowRecord =
     JObj [(''level'', JStr ''warn''), (''message'', JStr ''disk low''),
           (''dt'', JStr ''2024-01-01T00:00:00Z'')]"

definition badDateLine :: string where
  \<open>badDateLine = ''{"dt":{"toString":1}}''\<close>

definition badDateRecord :: json where
  "badDateRecord = JObj [(''dt'', JObj [(''toString'', JNum 1)])]"

definition tableOr :: "('a \<times> 'b) list \<Rightarrow> 'b \<Rightarrow> 'a \<Rightarrow> 'b" where
  "tableOr t d x = (case map_of t x of Some y \<Rightarrow> y | None \<Rightarrow> d)"

definition samplePlatform :: platform where
  "samplePlatform =
     \<lparr>JSON_parse = map_of [(diskLowLine, diskLowRecord), (badDateLine, badDateRecord)],
      JSON_stringify = tableOr [(diskLowRecord, diskLowLine), (badDateRecord, badDateLine)] [],
      Date_parse = map_of [(''2024-01-01T00:00:00Z'', 1704067200000),
                           (''2024-01-01T10:00:00Z'', 1704103200000),
                           (''2026-01-09T20:52:09Z'', 1767991929000),
                           (''2026-01-09T20:52:09.651Z'', 1767991929651)],
      Number_toString = tableOr [(1, ''1'')] [],
      toISOString = tableOr [(1767991929651, ''2026-01-09T20:52:09.651Z'')] [],
      Date_now = (\<lambda>k. 1767991929651)\<rparr>"

definition freshState :: pstate where
  "freshState = \<lparr>idCounter = 0, clockReads = 0\<rparr>"

definition sampleContent :: string where
  "sampleContent =
     diskLowLine @ [CHR 0x0A] @ [CHR 0x0A]
     @ ''[2024-01-01 10:00:00] [ERROR] connection refused'' @ [CHR 0x0A]
     @ ''   '' @ [CHR 0x0A]
     @ ''plain text without a date'' @ [CHR 0x0A]
     @ ''[nonsense] [debug] not a date''"

text \<open>The entries that the concrete content parses to on the concrete platform.\<close>

definition sampleEntries :: "LogEntry list" where
  "sampleEntries =
     [\<lparr>idE = ''log-1767991929651-0'', dt = JStr ''2024-01-01T00:00:00Z'', level = Warn,
       pid = None, hostname = None, message = ''disk low'', message_field = None,
       data = Some diskLowRecord, raw = Some diskLowLine\<rparr>,
      \<lparr>idE = ''log-1767991929651-1'', dt = JStr ''2024-01-01T10:00:00Z'', level = Error,
       pid = None, hostname = None, message = ''connection refused'', message_field = None,
       data = None, raw = Some ''[2024-01-01 10:00:00] [ERROR] connection refused''\<rparr>,
      \<lparr>idE = ''log-1767991929651-2'', dt = JStr ''2026-01-09T20:52:09.651Z'', level = Info,
       pid = None, hostname = None, message = ''plain text without a date'',
       message_field = None, data = None, raw = Some ''plain text without a date''\<rparr>,
      \<lparr>idE = ''log-1767991929651-3'', dt = JStr ''nonsenseZ'', level = Debug,
       pid = None, hostname = None, message = ''not a date'', message_field = None,
       data = None, raw = Some ''[nonsense] [debug] not a date''\<rparr>]"

text \<open>
  The declared type of \<^verbatim>\<open>data\<close> is \<^verbatim>\<open>Record<string, unknown>\<close>: when the field is
  present it is an object.
\<close>

fun isRecord :: "json \<Rightarrow> bool" where
  "isRecord (JObj kvs) = True"
| "isRecord v = False"

definition dataTyped :: "LogEntry \<Rightarrow> bool" where
  "dataTyped e = (case data e of None \<Rightarrow> True | Some d \<Rightarrow> isRecord d)"

text \<open>
  The filter of the specification: an entry survives if the level set is empty or holds
  its level, and the search text is empty or is, case-insensitively, contained in its
  message or in the text encoding of its \<open>data\<close> when that is present.
\<close>

definition survives :: "platform \<Rightarrow> string \<Rightarrow> LogLevel list \<Rightarrow> LogEntry \<Rightarrow> bool" where
  "survives P search lvls e =
     ((lvls = [] \<or> level e \<in> set lvls) \<and>
      (search = [] \<or> containsCI (message e) search \<or>
       (case data e of None \<Rightarrow> False | Some d \<Rightarrow> containsCI (JSON_stringify P d) search)))"

section \<open>Notions of the specification: the timeline\<close>

text \<open>
  The valid instant of an entry, if its \<open>dt\<close> has one; an entry is datable when
  constructing its date does not throw (a \<open>dt\<close> that is a string always is).
\<close>

definition instantOf :: "platform \<Rightarrow> LogEntry \<Rightarrow> int option" where
  "instantOf P e = (case getTime P (dt e) of Inr (Some t) \<Rightarrow> Some t | _ \<Rightarrow> None)"


definition datable :: "platform \<Rightarrow> LogEntry \<Rightarrow> bool" where
  "datable P e = (case getTime P (dt e) of Inl err \<Rightarrow> False | Inr t \<Rightarrow> True)"

text \<open>
  The least and the greatest valid instant of a list of entries, the bucket width that
  follows from them, the bucket index of an entry, and the entries of a bucket.
\<close>

definition instants :: "platform \<Rightarrow> LogEntry list \<Rightarrow> int list" where
  "instants P es = validDates (map (instantOf P) es)"










section \<open>Notions of the specification: parsing\<close>

text \<open>The entries of a list of lines, one after the other, and the state they leave.\<close>

fun parseLines :: "platform \<Rightarrow> pstate \<Rightarrow> string list \<Rightarrow> LogEntry list \<times> pstate" where
  "parseLines P st [] = ([], st)"
| "parseLines P st (line # lines) =
     (let (e, st1) = parseLine P st line;
          (es, st2) = parseLines P st1 lines
      in (e # es, st2))"

text \<open>
  The counter that an identifier carries: the number written after its last hyphen.
\<close>

definition readNat :: "string \<Rightarrow> int" where
  "readNat s = foldl (\<lambda>n c. 10 * n + (of_char c - 48)) 0 s"

definition lastField :: "string \<Rightarrow> string" where
  "lastField s = rev (takeWhile (\<lambda>c. c \<noteq> CHR ''-'') (rev s))"

definition counterOf :: "string \<Rightarrow> int" where
  "counterOf s = readNat (lastField s)"

text \<open>
  One process: the contents are parsed one after the other on the same module state; a
  parse that throws returns no entries and leaves its state behind.
\<close>

fun session :: "platform \<Rightarrow> pstate \<Rightarrow> string list \<Rightarrow> LogEntry list" where
  "session P st [] = []"
| "session P st (c # cs) =
     (case parseLogFile P st c of
        (Inl err, st') \<Rightarrow> session P st' cs
      | (Inr r, st') \<Rightarrow> entries r @ session P st' cs)"

definition retainedCount :: "string list \<Rightarrow> nat" where
  "retainedCount cs = sum_list (map (\<lambda>c. length (retainedLines c)) cs)"

text \<open>
  What two entries of the same line have in common whatever the module state was: every
  field but the identifier and the timestamp, and the timestamp too unless both are the
  text of a reading of the clock.
\<close>

definition content ::
    "LogEntry \<Rightarrow> LogLevel \<times> string \<times> json option \<times> json option \<times> json option \<times> json option \<times> string option" where
  "content e = (level e, message e, pid e, hostname e, message_field e, data e, raw e)"

definition stampedNow :: "platform \<Rightarrow> LogEntry \<Rightarrow> bool" where
  "stampedNow P e = (\<exists>k. dt e = JStr (toISOString P (Date_now P k)))"

definition alike :: "platform \<Rightarrow> LogEntry \<Rightarrow> LogEntry \<Rightarrow> bool" where
  "alike P e e2 = (content e = content e2 \<and> (dt e = dt e2 \<or> stampedNow P e \<and> stampedNow P e2))"

text \<open>The entry of the single line \<open>plain text without a date\<close> parsed on a fresh state.\<close>

definition plainEntry :: LogEntry where
  "plainEntry =
     \<lparr>idE = ''log-1767991929651-0'', dt = JStr ''2026-01-09T20:52:09.651Z'', level = Info,
      pid = None, hostname = None, message = ''plain text without a date'',
      message_field = None, data = None, raw = Some ''plain text without a date''\<rparr>"

text \<open>
  The order in which strings compare (\<^verbatim>\<open><\<close> on strings): code unit by code unit,
  a proper prefix first.
\<close>

fun strLess :: "string \<Rightarrow> string \<Rightarrow> bool" where
  "strLess [] [] = False"
| "strLess [] (y # ys) = True"
| "strLess (x # xs) [] = False"
| "strLess (x # xs) (y # ys) =
     ((of_char x :: int) < of_char y \<or> (x = y \<and> strLess xs ys))"

text \<open>A file of eleven lines.\<close>

definition elevenLines :: string where
  "elevenLines = concat (replicate 11 (''ok'' @ [CHR 0x0A]))"

section \<open>Level classifier: priority and case\<close>

lemma startsWithCI_prefix: "startsWithCI s w = prefix (toLowerCase w) (toLowerCase s)"
  by (induction s w rule: startsWithCI.induct) (auto simp: toLowerCase_def sameLetter_def)

lemma containsCI_sublist: "containsCI s w = sublist (toLowerCase w) (toLowerCase s)"
proof (induction s)
  case Nil
  show ?case by (simp add: toLowerCase_def)
next
  case (Cons c cs)
  have "sublist (toLowerCase w) (toLowerCase (c # cs)) =
        (prefix (toLowerCase w) (toLowerCase (c # cs)) \<or> sublist (toLowerCase w) (toLowerCase cs))"
    by (simp add: toLowerCase_def sublist_Cons_right)
  with Cons show ?case by (simp add: startsWithCI_prefix)
qed

lemma lower_words:
  "toLowerCase ''fatal'' = ''fatal''" "toLowerCase ''critical'' = ''critical''"
  "toLowerCase ''error'' = ''error''" "toLowerCase ''err]'' = ''err]''"
  "toLowerCase ''warn'' = ''warn''" "toLowerCase ''debug'' = ''debug''"
  "toLowerCase ''dbg'' = ''dbg''"
  by code_simp+

lemma warning_warn: "sublist ''warning'' x \<Longrightarrow> sublist ''warn'' x"
proof -
  have "sublist ''warn'' ''warning''" by code_simp
  then show "sublist ''warning'' x \<Longrightarrow> sublist ''warn'' x"
    using sublist_order.order_trans by blast
qed

lemma detectLogLevel_priority:
  "detectLogLevel t =
     (if containsCI t ''fatal'' \<or> containsCI t ''critical'' then Fatal
      else if containsCI t ''error'' \<or> containsCI t ''err]'' then Error
      else if containsCI t ''warn'' then Warn
      else if containsCI t ''debug'' \<or> containsCI t ''dbg'' then Debug
      else Info)"
  unfolding detectLogLevel_def Let_def str_includes_def containsCI_sublist lower_words
  using warning_warn[of "toLowerCase t"] by auto

text \<open>
  Claim C2, as amended. The level of a text follows the fixed priority over
  case-insensitive containment: \<open>fatal\<close> or \<open>critical\<close> gives fatal, else \<open>error\<close> or
  \<open>err]\<close> gives error, else \<open>warn\<close> gives warn, else \<open>debug\<close> or \<open>dbg\<close> gives debug,
  else info. Two texts that differ in case only have the same level. \<open>ERROR\<close>, \<open>error\<close>
  and \<open>[err]\<close> are errors, and a text that contains both \<open>warn\<close> and \<open>error\<close> is an
  error when it contains neither \<open>fatal\<close> nor \<open>critical\<close>.
\<close>

theorem detectLogLevel_spec:
  "detectLogLevel t =
     (if containsCI t ''fatal'' \<or> containsCI t ''critical'' then Fatal
      else if containsCI t ''error'' \<or> containsCI t ''err]'' then Error
      else if containsCI t ''warn'' then Warn
      else if containsCI t ''debug'' \<or> containsCI t ''dbg'' then Debug
      else Info)
   \<and> (toLowerCase t = toLowerCase u \<longrightarrow> detectLogLevel t = detectLogLevel u)
   \<and> detectLogLevel ''ERROR'' = Error \<and> detectLogLevel ''error'' = Error
   \<and> detectLogLevel ''[err]'' = Error
   \<and> (containsCI t ''warn'' \<and> containsCI t ''error''
        \<and> \<not> containsCI t ''fatal'' \<and> \<not> containsCI t ''critical''
       \<longrightarrow> detectLogLevel t = Error)"
proof (intro conjI)
  show "toLowerCase t = toLowerCase u \<longrightarrow> detectLogLevel t = detectLogLevel u"
    by (simp add: detectLogLevel_def)
  show "detectLogLevel ''ERROR'' = Error" by code_simp
  show "detectLogLevel ''error'' = Error" by code_simp
  show "detectLogLevel ''[err]'' = Error" by code_simp
qed (simp_all add: detectLogLevel_priority)

theorem detectLogLevel_spec_witness:
  "containsCI ''WARN: disk error'' ''warn'' \<and> containsCI ''WARN: disk error'' ''error''
   \<and> \<not> containsCI ''WARN: disk error'' ''fatal'' \<and> \<not> containsCI ''WARN: disk error'' ''critical''
   \<and> toLowerCase ''WARN: disk error'' = toLowerCase ''warn: DISK error''
   \<and> detectLogLevel ''WARN: disk error'' = Error
   \<and> detectLogLevel ''warn: DISK error'' = Error"
proof -
  have a: "containsCI ''WARN: disk error'' ''warn''" by code_simp
  have b: "containsCI ''WARN: disk error'' ''error''" by code_simp
  have c: "\<not> containsCI ''WARN: disk error'' ''fatal''" by code_simp
  have d: "\<not> containsCI ''WARN: disk error'' ''critical''" by code_simp
  have e: "toLowerCase ''WARN: disk error'' = toLowerCase ''warn: DISK error''" by code_simp
  from detectLogLevel_spec[of "''WARN: disk error''" "''warn: DISK error''"] a b c d e
  show ?thesis by metis
qed

text \<open>
  The claim as first stated lets every text with \<open>warn\<close> and \<open>error\<close> be an error; a
  text that also holds \<open>fatal\<close> is fatal.
\<close>

theorem detectLogLevel_warn_error_counterexample:
  "str_includes ''fatal error warning'' ''warn'' \<and> str_includes ''fatal error warning'' ''error''
   \<and> detectLogLevel ''fatal error warning'' = Fatal"
  by code_simp

section \<open>Evaluation of the concrete content\<close>


section \<open>Filter engine\<close>

lemma isRecord_truthy: "isRecord d \<Longrightarrow> truthy d"
  by (cases d) simp_all

lemma keeps_survives:
  assumes "dataTyped e"
  shows "keeps P search lvls e = survives P search lvls e"
proof (cases "data e")
  case None
  then show ?thesis
    by (auto simp: keeps_def survives_def Let_def containsCI_sublist str_includes_def)
next
  case (Some d)
  with assms have "truthy d" by (simp add: dataTyped_def isRecord_truthy)
  with Some show ?thesis
    by (auto simp: keeps_def survives_def Let_def containsCI_sublist str_includes_def)
qed

text \<open>
  Claim C3. For entries whose \<open>data\<close>, when present, is a record, \<open>filterLogs\<close>
  returns exactly the entries that survive in the sense of the specification, in their
  original order (the result is a subsequence of the input, which is a value and stays
  as it is), and with the empty search text and the empty level list it returns all
  entries unchanged.
\<close>

theorem filterLogs_spec:
  assumes "\<forall>e \<in> set es. dataTyped e"
  shows "filterLogs P es search lvls = filter (survives P search lvls) es
         \<and> subseq (filterLogs P es search lvls) es
         \<and> filterLogs P es [] [] = es"
proof -
  have "filterLogs P es search lvls = filter (survives P search lvls) es"
    unfolding filterLogs_def using assms by (intro filter_cong) (auto simp: keeps_survives)
  moreover have "subseq (filterLogs P es search lvls) es"
    by (simp add: filterLogs_def)
  moreover have "filterLogs P es [] [] = es"
    by (simp add: filterLogs_def keeps_def)
  ultimately show ?thesis by blast
qed

theorem filterLogs_spec_witness:
  "list_all dataTyped sampleEntries
   \<and> filterLogs samplePlatform sampleEntries ''WARN'' [Warn, Error]
       = filter (survives samplePlatform ''WARN'' [Warn, Error]) sampleEntries
   \<and> filterLogs samplePlatform sampleEntries ''WARN'' [Warn, Error] = [hd sampleEntries]
   \<and> filterLogs samplePlatform sampleEntries [] [] = sampleEntries"
proof -
  have h: "\<forall>e \<in> set sampleEntries. dataTyped e" by code_simp
  have v: "filterLogs samplePlatform sampleEntries ''WARN'' [Warn, Error] = [hd sampleEntries]"
    by code_simp
  from filterLogs_spec[OF h, of samplePlatform "''WARN''" "[Warn, Error]"] h v
  show ?thesis by (simp add: list_all_iff)
qed

section \<open>Timeline bucketizer\<close>













lemma sorted_keys_unique:
  assumes "distinct (map fst xs)"
  shows "map fst (sort_key fst xs) = sort (remdups (map fst xs))"
proof (rule sorted_distinct_set_unique)
  show "sorted (map fst (sort_key fst xs))" by (rule sorted_sort_key)
  from assms show "distinct (map fst (sort_key fst xs))" by (simp add: distinct_map)
qed simp_all

























section \<open>Line dispatcher and identifiers\<close>

lemma generateId_counter:
  "generateId P st = (i, st') \<Longrightarrow>
     i = ''log-'' @ showInt (Date_now P (clockReads st)) @ ''-'' @ showInt (idCounter st)
     \<and> idCounter st' = incr (idCounter st)"
  by (auto simp: generateId_def)

lemma nowISOString_counter: "nowISOString P st = (s, st') \<Longrightarrow> idCounter st' = idCounter st"
  by (auto simp: nowISOString_def)

lemma parseJsonLog_None: "parseJsonLog P st l = (None, st') \<Longrightarrow> st' = st"
  by (auto simp: parseJsonLog_def Let_def split: option.splits json.splits sum.splits prod.splits if_splits)

lemma parseJsonLog_Some:
  "parseJsonLog P st l = (Some e, st') \<Longrightarrow>
     raw e = Some l \<and> idCounter st' = incr (idCounter st) \<and>
     (\<exists>k. idE e = ''log-'' @ showInt (Date_now P k) @ ''-'' @ showInt (idCounter st))"
  by (auto simp: parseJsonLog_def Let_def generateId_def nowISOString_def
      split: option.splits json.splits sum.splits prod.splits if_splits)

lemma parseStructuredTextLog_None: "parseStructuredTextLog P st l = (None, st') \<Longrightarrow> st' = st"
  by (auto simp: parseStructuredTextLog_def Let_def split: option.splits prod.splits)

lemma parseStructuredTextLog_Some:
  "parseStructuredTextLog P st l = (Some e, st') \<Longrightarrow>
     raw e = Some l \<and> idCounter st' = incr (idCounter st) \<and>
     (\<exists>k. idE e = ''log-'' @ showInt (Date_now P k) @ ''-'' @ showInt (idCounter st))"
  by (auto simp: parseStructuredTextLog_def Let_def generateId_def
      split: option.splits prod.splits)

lemma parsePlainTextLog_entry:
  "parsePlainTextLog P st l = (e, st') \<Longrightarrow>
     raw e = Some l \<and> idCounter st' = incr (idCounter st) \<and>
     (\<exists>k. idE e = ''log-'' @ showInt (Date_now P k) @ ''-'' @ showInt (idCounter st))"
  by (auto simp: parsePlainTextLog_def Let_def generateId_def nowISOString_def
      split: option.splits prod.splits if_splits)

lemma parseLine_entry:
  assumes "parseLine P st l = (e, st')"
  shows "raw e = Some l \<and> idCounter st' = incr (idCounter st) \<and>
     (\<exists>k. idE e = ''log-'' @ showInt (Date_now P k) @ ''-'' @ showInt (idCounter st))"
proof -
  obtain j st1 where j: "(if startsWith (trim l) ''{'' then parseJsonLog P st l else (None, st)) = (j, st1)"
    by (cases "(if startsWith (trim l) ''{'' then parseJsonLog P st l else (None, st))") auto
  show ?thesis
  proof (cases j)
    case (Some x)
    with j assms have "parseJsonLog P st l = (Some e, st')"
      by (auto simp: parseLine_def split: if_splits)
    then show ?thesis by (rule parseJsonLog_Some)
  next
    case None
    with j have s: "st1 = st" by (auto split: if_splits dest: parseJsonLog_None)
    obtain b st2 where b: "parseStructuredTextLog P st l = (b, st2)"
      by (cases "parseStructuredTextLog P st l") auto
    show ?thesis
    proof (cases b)
      case (Some y)
      with b j None s assms have "parseStructuredTextLog P st l = (Some e, st')"
        by (auto simp: parseLine_def)
      then show ?thesis by (rule parseStructuredTextLog_Some)
    next
      case None2: None
      with b have "st2 = st" by (auto dest: parseStructuredTextLog_None)
      with b j None None2 s assms have "parsePlainTextLog P st l = (e, st')"
        by (auto simp: parseLine_def)
      then show ?thesis by (rule parsePlainTextLog_entry)
    qed
  qed
qed


lemma instants_Cons:
  "instants P (e # es) = (case instantOf P e of None \<Rightarrow> instants P es | Some t \<Rightarrow> t # instants P es)"
  by (simp add: instants_def validDates_def split: option.splits)

lemma instants_append: "instants P (xs @ ys) = instants P xs @ instants P ys"
  by (simp add: instants_def validDates_def)

lemma parseLoop_Inr:
  "parseLoop P lines es ls mn mx st = (Inr (es', ls', mn', mx'), st') \<Longrightarrow>
     es' = es @ fst (parseLines P st lines) \<and> st' = snd (parseLines P st lines) \<and>
     (\<forall>e \<in> set (fst (parseLines P st lines)). datable P e) \<and>
     mn' = foldl lowerDate mn (instants P (fst (parseLines P st lines))) \<and>
     mx' = foldl upperDate mx (instants P (fst (parseLines P st lines))) \<and>
     set ls' = set ls \<union> level ` set (fst (parseLines P st lines))"
proof (induction lines arbitrary: es ls mn mx st)
  case Nil
  then show ?case by (simp add: instants_def validDates_def)
next
  case (Cons l lines)
  obtain e st1 where p: "parseLine P st l = (e, st1)" by (cases "parseLine P st l") auto
  obtain rest st2 where q: "parseLines P st1 lines = (rest, st2)"
    by (cases "parseLines P st1 lines") auto
  show ?case
  proof (cases "getTime P (dt e)")
    case (Inl err)
    with Cons.prems p show ?thesis by simp
  next
    case (Inr t)
    then have de: "datable P e" and ie: "instantOf P e = t"
      by (simp_all add: datable_def instantOf_def split: option.splits)
    show ?thesis
    proof (cases t)
      case None
      with Cons.prems p Inr have
        "parseLoop P lines (es @ [e]) (List.insert (level e) ls) mn mx st1 = (Inr (es', ls', mn', mx'), st')"
        by simp
      from Cons.IH[OF this] p q de ie None show ?thesis
        by (auto simp: instants_Cons)
    next
      case (Some d)
      with Cons.prems p Inr have
        "parseLoop P lines (es @ [e]) (List.insert (level e) ls) (lowerDate mn d) (upperDate mx d) st1
           = (Inr (es', ls', mn', mx'), st')"
        by simp
      from Cons.IH[OF this] p q de ie Some show ?thesis
        by (auto simp: instants_Cons)
    qed
  qed
qed

lemma incr_bounds: "n \<le> incr n \<and> incr n \<le> n + 1"
  by (simp add: incr_def)

lemma parseLoop_counter:
  "idCounter st \<le> idCounter (snd (parseLoop P lines es ls mn mx st)) \<and>
   idCounter (snd (parseLoop P lines es ls mn mx st)) \<le> idCounter st + int (length lines)"
proof (induction lines arbitrary: es ls mn mx st)
  case Nil
  show ?case by simp
next
  case (Cons l lines)
  obtain e st1 where p: "parseLine P st l = (e, st1)" by (cases "parseLine P st l") auto
  from parseLine_entry[OF p] incr_bounds[of "idCounter st"]
  have b: "idCounter st \<le> idCounter st1" "idCounter st1 \<le> idCounter st + 1" by simp_all
  show ?case
  proof (cases "getTime P (dt e)")
    case (Inl err)
    with p b show ?thesis by simp
  next
    case (Inr t)
    show ?thesis
    proof (cases t)
      case None
      with p Inr b Cons.IH[of st1 "es @ [e]" "List.insert (level e) ls" mn mx]
      show ?thesis by simp
    next
      case (Some d)
      with p Inr b
        Cons.IH[of st1 "es @ [e]" "List.insert (level e) ls" "lowerDate mn d" "upperDate mx d"]
      show ?thesis by simp
    qed
  qed
qed

lemma parseLines_raw: "map raw (fst (parseLines P st lines)) = map Some lines"
proof (induction lines arbitrary: st)
  case Nil
  show ?case by simp
next
  case (Cons l lines)
  obtain e st1 where p: "parseLine P st l = (e, st1)" by (cases "parseLine P st l") auto
  from parseLine_entry[OF p] Cons.IH[of st1] p show ?case
    by (simp add: split_beta)
qed

lemma parseLines_length: "length (fst (parseLines P st lines)) = length lines"
  using parseLines_raw[of P st lines] by (metis length_map)


lemma digit_char:
  assumes "0 \<le> d" and "d < 10"
  shows "(char_of (48 + d) :: char) \<noteq> CHR ''-'' \<and> (of_char (char_of (48 + d) :: char) :: int) - 48 = d"
proof -
  from assms have "(48 + d) mod 256 = 48 + d" by simp
  then have o: "(of_char (char_of (48 + d) :: char) :: int) = 48 + d" by (simp add: of_char_of)
  have "(char_of (48 + d) :: char) \<noteq> CHR ''-''"
  proof
    assume "(char_of (48 + d) :: char) = CHR ''-''"
    then have "(of_char (char_of (48 + d) :: char) :: int) = of_char CHR ''-''" by (rule arg_cong)
    with o assms show False by simp
  qed
  with o show ?thesis by simp
qed

lemma showDigits_digits:
  "0 \<le> n \<Longrightarrow> (\<forall>c \<in> set (showDigits n). c \<noteq> CHR ''-'') \<and> readNat (showDigits n) = n"
proof (induction n rule: showDigits.induct)
  case (1 n)
  show ?case
  proof (cases "n < 10")
    case True
    then have s: "showDigits n = [char_of (48 + n)]" by (simp add: showDigits.simps[of n])
    from digit_char[OF "1.prems" True] show ?thesis by (simp add: s readNat_def)
  next
    case False
    with "1.prems" have pos: "0 \<le> n div 10" by simp
    from "1.IH"[OF False pos] have
      ih1: "\<forall>c \<in> set (showDigits (n div 10)). c \<noteq> CHR ''-''" and
      ih2: "readNat (showDigits (n div 10)) = n div 10" by simp_all
    have d: "(char_of (48 + n mod 10) :: char) \<noteq> CHR ''-'' \<and>
             (of_char (char_of (48 + n mod 10) :: char) :: int) - 48 = n mod 10"
      by (rule digit_char) simp_all
    have s: "showDigits n = showDigits (n div 10) @ [char_of (48 + n mod 10)]"
      using False by (simp add: showDigits.simps[of n])
    from ih1 d have "\<forall>c \<in> set (showDigits n). c \<noteq> CHR ''-''" by (auto simp: s)
    moreover have "readNat (showDigits n) = 10 * readNat (showDigits (n div 10)) + n mod 10"
      using d by (simp add: s readNat_def)
    ultimately show ?thesis using ih2 by simp
  qed
qed

lemma lastField_append:
  assumes "\<forall>c \<in> set d. c \<noteq> CHR ''-''"
  shows "lastField (x @ CHR ''-'' # d) = d"
proof -
  have "takeWhile (\<lambda>c. c \<noteq> CHR ''-'') (rev d @ CHR ''-'' # rev x)
          = rev d @ takeWhile (\<lambda>c. c \<noteq> CHR ''-'') (CHR ''-'' # rev x)"
    using assms by (intro takeWhile_append2) simp
  then show ?thesis by (simp add: lastField_def)
qed

lemma counterOf_id:
  assumes "0 \<le> n"
  shows "counterOf (''log-'' @ showInt t @ ''-'' @ showInt n) = n"
proof -
  from assms have sn: "showInt n = showDigits n" by (simp add: showInt_def)
  from showDigits_digits[OF assms] have
    nd: "\<forall>c \<in> set (showDigits n). c \<noteq> CHR ''-''" and rn: "readNat (showDigits n) = n"
    by simp_all
  have e: "''log-'' @ showInt t @ ''-'' @ showInt n = (''log-'' @ showInt t) @ CHR ''-'' # showDigits n"
    by (simp add: sn)
  show ?thesis unfolding counterOf_def e lastField_append[OF nd] by (rule rn)
qed

lemma map_upt_shift:
  "map (\<lambda>i. c + int i) [0 ..< Suc n] = c # map (\<lambda>i. (c + 1) + int i) [0 ..< n]"
  by (induction n) simp_all

lemma parseLines_counters:
  assumes "0 \<le> idCounter st" and "idCounter st + int (length lines) \<le> 2 ^ 53"
  shows "map (\<lambda>e. counterOf (idE e)) (fst (parseLines P st lines))
           = map (\<lambda>i. idCounter st + int i) [0 ..< length lines]
         \<and> idCounter (snd (parseLines P st lines)) = idCounter st + int (length lines)"
  using assms
proof (induction lines arbitrary: st)
  case Nil
  show ?case by simp
next
  case (Cons l lines)
  obtain e st1 where p: "parseLine P st l = (e, st1)" by (cases "parseLine P st l") auto
  from Cons.prems have lt: "idCounter st < 2 ^ 53" by simp
  from parseLine_entry[OF p] obtain k where
    i: "idE e = ''log-'' @ showInt (Date_now P k) @ ''-'' @ showInt (idCounter st)" and
    c: "idCounter st1 = idCounter st + 1"
    using lt by (auto simp: incr_def)
  from Cons.prems(1) have ce: "counterOf (idE e) = idCounter st"
    unfolding i by (rule counterOf_id)
  from c Cons.prems have "0 \<le> idCounter st1" "idCounter st1 + int (length lines) \<le> 2 ^ 53"
    by simp_all
  from Cons.IH[OF this] have
    ih: "map (\<lambda>e. counterOf (idE e)) (fst (parseLines P st1 lines))
           = map (\<lambda>i. idCounter st1 + int i) [0 ..< length lines]"
        "idCounter (snd (parseLines P st1 lines)) = idCounter st1 + int (length lines)"
    by blast+
  have "map (\<lambda>i. idCounter st + int i) [0 ..< Suc (length lines)] =
        idCounter st # map (\<lambda>i. idCounter st1 + int i) [0 ..< length lines]"
    unfolding c by (rule map_upt_shift)
  with p ce ih c show ?case by (simp add: split_beta del: upt_Suc)
qed


lemma foldl_lowerDate: "foldl lowerDate (Some m) ds = Some (foldl min m ds)"
  by (induction ds arbitrary: m) (simp_all add: lowerDate_def min_def)

lemma foldl_upperDate: "foldl upperDate (Some m) ds = Some (foldl max m ds)"
  by (induction ds arbitrary: m) (simp_all add: upperDate_def max_def)

lemma parseLogFile_Inr:
  assumes "parseLogFile P st c = (Inr r, st')"
  shows "entries r = fst (parseLines P st (retainedLines c))
         \<and> st' = snd (parseLines P st (retainedLines c))
         \<and> (\<forall>e \<in> set (entries r). datable P e)
         \<and> dateRange r = (case instants P (entries r) of
                             [] \<Rightarrow> None
                           | d # ds \<Rightarrow> Some (foldl min d ds, foldl max d ds))
         \<and> set (levels r) = level ` set (entries r)"
proof -
  from assms obtain es ls mn mx where
    l: "parseLoop P (retainedLines c) [] [] None None st = (Inr (es, ls, mn, mx), st')" and
    r: "r = \<lparr>entries = es, levels = sortLevels ls,
             dateRange = (case (mn, mx) of (Some a, Some b) \<Rightarrow> Some (a, b) | _ \<Rightarrow> None)\<rparr>"
    by (auto simp: parseLogFile_def split: prod.splits sum.splits)
  from parseLoop_Inr[OF l] have
    e: "es = fst (parseLines P st (retainedLines c))" and
    s: "st' = snd (parseLines P st (retainedLines c))" and
    d: "\<forall>e \<in> set es. datable P e" and
    mn: "mn = foldl lowerDate None (instants P es)" and
    mx: "mx = foldl upperDate None (instants P es)" and
    ls: "set ls = level ` set es"
    by simp_all
  have dr: "(case (mn, mx) of (Some a, Some b) \<Rightarrow> Some (a, b) | _ \<Rightarrow> None) =
        (case instants P es of [] \<Rightarrow> None | d # ds \<Rightarrow> Some (foldl min d ds, foldl max d ds))"
    unfolding mn mx
    by (cases "instants P es") (simp_all add: lowerDate_def upperDate_def foldl_lowerDate foldl_upperDate)
  have "set (sortLevels ls) = set ls"
  proof -
    have "l \<in> set [Debug, Error, Fatal, Info, Warn]" for l by (cases l) simp_all
    then have "set (sortLevels ls) = {l. l \<in> set ls}"
      unfolding sortLevels_def set_filter by blast
    then show ?thesis by simp
  qed
  with r e s d dr ls show ?thesis by simp
qed

text \<open>
  Whenever \<open>parseLogFile\<close> returns, it returns one entry for each retained line, in
  the order of the lines, each holding its line as \<open>raw\<close>; and it returns exactly when
  the date of every entry can be constructed.
\<close>

lemma parseLogFile_complete:
  assumes "parseLogFile P st c = (Inr r, st')"
  shows "length (entries r) = length (retainedLines c) \<and>
         map raw (entries r) = map Some (retainedLines c)"
  using parseLogFile_Inr[OF assms] by (simp add: parseLines_raw parseLines_length)

lemma string_dt_datable: "dt e = JStr s \<Longrightarrow> datable P e"
  by (simp add: datable_def)

lemma pipeline_datable:
  assumes "parseLogFile P st c = (Inr r, st')"
  shows "\<forall>e \<in> set (filterLogs P (entries r) s l). datable P e"
  using parseLogFile_Inr[OF assms] by (simp add: filterLogs_def)

lemma parseLogFile_counter:
  "idCounter st \<le> idCounter (snd (parseLogFile P st c)) \<and>
   idCounter (snd (parseLogFile P st c)) \<le> idCounter st + int (length (retainedLines c))"
proof -
  have "snd (parseLogFile P st c) = snd (parseLoop P (retainedLines c) [] [] None None st)"
    by (simp add: parseLogFile_def split: prod.splits sum.splits)
  then show ?thesis using parseLoop_counter[of st P "retainedLines c" "[]" "[]" None None] by simp
qed

lemma sorted_counters: "sorted_wrt (<) (map (\<lambda>i. c + int i) [0 ..< n])"
  by (simp add: sorted_wrt_map sorted_wrt_iff_nth_less)

lemma session_counters:
  assumes "0 \<le> idCounter st" and "idCounter st + int (retainedCount cs) \<le> 2 ^ 53"
  shows "sorted_wrt (<) (map (\<lambda>e. counterOf (idE e)) (session P st cs)) \<and>
         (\<forall>e \<in> set (session P st cs). idCounter st \<le> counterOf (idE e))"
  using assms
proof (induction cs arbitrary: st)
  case Nil
  show ?case by simp
next
  case (Cons c cs)
  let ?n = "length (retainedLines c)"
  obtain x st' where p: "parseLogFile P st c = (x, st')" by (cases "parseLogFile P st c") auto
  from parseLogFile_counter[of st P c] p have
    b: "idCounter st \<le> idCounter st'" "idCounter st' \<le> idCounter st + int ?n" by simp_all
  from Cons.prems have t: "idCounter st + int ?n + int (retainedCount cs) \<le> 2 ^ 53"
    by (simp add: retainedCount_def)
  from b t Cons.prems(1) have "0 \<le> idCounter st'" "idCounter st' + int (retainedCount cs) \<le> 2 ^ 53"
    by simp_all
  from Cons.IH[OF this] have
    ih1: "sorted_wrt (<) (map (\<lambda>e. counterOf (idE e)) (session P st' cs))" and
    ih2: "\<forall>e \<in> set (session P st' cs). idCounter st' \<le> counterOf (idE e)" by blast+
  show ?case
  proof (cases x)
    case (Inl err)
    with p ih1 ih2 b show ?thesis by auto
  next
    case (Inr r)
    with p have q: "parseLogFile P st c = (Inr r, st')" by simp
    from parseLogFile_Inr[OF q] have
      e: "entries r = fst (parseLines P st (retainedLines c))" and
      s: "st' = snd (parseLines P st (retainedLines c))" by simp_all
    from t have "idCounter st + int ?n \<le> 2 ^ 53" by simp
    from parseLines_counters[OF Cons.prems(1) this, of P] e s have
      m: "map (\<lambda>e. counterOf (idE e)) (entries r) = map (\<lambda>i. idCounter st + int i) [0 ..< ?n]" and
      c': "idCounter st' = idCounter st + int ?n" by simp_all
    have lo: "\<forall>a \<in> set (map (\<lambda>e. counterOf (idE e)) (entries r)). idCounter st \<le> a \<and> a < idCounter st'"
      unfolding m c' by auto
    have "sorted_wrt (<) (map (\<lambda>e. counterOf (idE e)) (entries r))"
      unfolding m by (rule sorted_counters)
    with ih1 ih2 lo have "sorted_wrt (<) (map (\<lambda>e. counterOf (idE e)) (entries r @ session P st' cs))"
      by (fastforce simp: sorted_wrt_append)
    moreover from lo ih2 b have
      "\<forall>e \<in> set (entries r @ session P st' cs). idCounter st \<le> counterOf (idE e)"
      by fastforce
    ultimately show ?thesis using q by simp
  qed
qed

lemma sorted_less_distinct: "sorted_wrt (<) (xs :: int list) \<Longrightarrow> distinct xs"
  by (induction xs) auto

text \<open>
  Claim C7, as amended. In one process, started with a counter that is not negative and
  that stays within the range where a double counts exactly (\<open>2 ^ 53\<close>), the
  identifiers of all entries that the successive calls of \<open>parseLogFile\<close> return are
  pairwise distinct, and the counter they carry increases strictly in the order of the
  calls and, within a call, of the lines.
\<close>

theorem ids_increasing:
  assumes "0 \<le> idCounter st" and "idCounter st + int (retainedCount cs) \<le> 2 ^ 53"
  shows "distinct (map idE (session P st cs)) \<and>
         sorted_wrt (<) (map (\<lambda>e. counterOf (idE e)) (session P st cs))"
proof -
  from session_counters[OF assms, of P] have
    s: "sorted_wrt (<) (map (\<lambda>e. counterOf (idE e)) (session P st cs))" by simp
  then have "distinct (map counterOf (map idE (session P st cs)))"
    by (simp add: sorted_less_distinct comp_def)
  then have "distinct (map idE (session P st cs))"
    using distinct_map[of counterOf "map idE (session P st cs)"] by blast
  with s show ?thesis by simp
qed

theorem ids_increasing_witness:
  "0 \<le> idCounter freshState \<and>
   idCounter freshState + int (retainedCount [sampleContent, sampleContent]) \<le> 2 ^ 53 \<and>
   map idE (session samplePlatform freshState [sampleContent, sampleContent]) =
     [''log-1767991929651-0'', ''log-1767991929651-1'', ''log-1767991929651-2'',
      ''log-1767991929651-3'', ''log-1767991929651-4'', ''log-1767991929651-5'',
      ''log-1767991929651-6'', ''log-1767991929651-7''] \<and>
   distinct (map idE (session samplePlatform freshState [sampleContent, sampleContent])) \<and>
   sorted_wrt (<) (map (\<lambda>e. counterOf (idE e))
      (session samplePlatform freshState [sampleContent, sampleContent]))"
proof -
  have h1: "0 \<le> idCounter freshState" by code_simp
  have h2: "idCounter freshState + int (retainedCount [sampleContent, sampleContent]) \<le> 2 ^ 53"
    by code_simp
  have v: "map idE (session samplePlatform freshState [sampleContent, sampleContent]) =
     [''log-1767991929651-0'', ''log-1767991929651-1'', ''log-1767991929651-2'',
      ''log-1767991929651-3'', ''log-1767991929651-4'', ''log-1767991929651-5'',
      ''log-1767991929651-6'', ''log-1767991929651-7'']"
    by code_simp
  from ids_increasing[OF h1 h2, of samplePlatform] h1 h2 v show ?thesis by blast
qed

lemma ok_facts:
  "startsWith (trim ''ok'') ''{'' = False"
  "match ''ok'' structuredRegex = None"
  "extractTimestamp ''ok'' = None"
  "detectLogLevel ''ok'' = Info"
  "cleanMessage ''ok'' = ''ok''"
  "toISOString samplePlatform 1767991929651 = ''2026-01-09T20:52:09.651Z''"
  "Date_parse samplePlatform ''2026-01-09T20:52:09.651Z'' = Some 1767991929651"
  "showInt 1767991929651 = ''1767991929651''"
  "retainedLines elevenLines = replicate 11 ''ok''"
  by code_simp+

lemma sample_clock: "Date_now samplePlatform k = 1767991929651"
  by (simp add: samplePlatform_def)

lemma ok_line:
  "parseLine samplePlatform \<lparr>idCounter = n, clockReads = k\<rparr> ''ok'' =
     (\<lparr>idE = ''log-1767991929651-'' @ showInt n, dt = JStr ''2026-01-09T20:52:09.651Z'',
       level = Info, pid = None, hostname = None, message = ''ok'', message_field = None,
       data = None, raw = Some ''ok''\<rparr>,
      \<lparr>idCounter = incr n, clockReads = Suc (Suc k)\<rparr>)"
  by (simp add: parseLine_def parseStructuredTextLog_def parsePlainTextLog_def generateId_def
        nowISOString_def ok_facts sample_clock Let_def)

lemma small_numbers:
  "incr 0 = 1" "incr 1 = 2" "incr 2 = 3" "incr 3 = 4" "incr 4 = 5" "incr 5 = 6" "incr 6 = 7"
  "incr 7 = 8" "incr 8 = 9" "incr 9 = 10" "incr 10 = 11"
  "showInt 9 = ''9''" "showInt 10 = ''10''"
  by code_simp+

text \<open>
  The claim as first stated has the identifiers themselves increase. They are strings:
  the tenth and the eleventh entry of one file, made in the same millisecond, carry the
  counters 9 and 10, and the later identifier is the smaller string.
\<close>

theorem ids_string_order_counterexample:
  "map_sum id (\<lambda>r. drop 9 (map idE (entries r)))
     (fst (parseLogFile samplePlatform freshState elevenLines))
     = Inr [''log-1767991929651-9'', ''log-1767991929651-10''] \<and>
   strLess ''log-1767991929651-10'' ''log-1767991929651-9''"
proof -
  have "strLess ''log-1767991929651-10'' ''log-1767991929651-9''" by code_simp
  moreover have "map_sum id (\<lambda>r. drop 9 (map idE (entries r)))
     (fst (parseLogFile samplePlatform freshState elevenLines))
     = Inr [''log-1767991929651-9'', ''log-1767991929651-10'']"
    by (simp add: parseLogFile_def freshState_def ok_facts ok_line small_numbers
          eval_nat_numeral lowerDate_def upperDate_def)
  ultimately show ?thesis by simp
qed

section \<open>Repeated invocations\<close>

lemma parseJsonLog_alike:
  "rel_option (alike P) (fst (parseJsonLog P st l)) (fst (parseJsonLog P st2 l))"
  by (auto simp: parseJsonLog_def Let_def generateId_def nowISOString_def alike_def content_def
        stampedNow_def split: option.splits json.splits sum.splits)

lemma parseStructuredTextLog_alike:
  "rel_option (alike P) (fst (parseStructuredTextLog P st l)) (fst (parseStructuredTextLog P st2 l))"
  by (auto simp: parseStructuredTextLog_def Let_def generateId_def alike_def content_def
        split: option.splits prod.splits)

lemma parsePlainTextLog_alike:
  "alike P (fst (parsePlainTextLog P st l)) (fst (parsePlainTextLog P st2 l))"
  by (auto simp: parsePlainTextLog_def Let_def generateId_def nowISOString_def alike_def
        content_def stampedNow_def split: option.splits)


lemma parseLine_fst:
  "fst (parseLine P st l) =
     (case (if startsWith (trim l) ''{'' then fst (parseJsonLog P st l) else None) of
        Some e \<Rightarrow> e
      | None \<Rightarrow>
          (case fst (parseStructuredTextLog P st l) of
             Some e \<Rightarrow> e
           | None \<Rightarrow> fst (parsePlainTextLog P st l)))"
proof -
  obtain j st1 where j: "parseJsonLog P st l = (j, st1)" by (cases "parseJsonLog P st l") auto
  obtain b st2 where b: "parseStructuredTextLog P st l = (b, st2)"
    by (cases "parseStructuredTextLog P st l") auto
  from j have j1: "j = None \<Longrightarrow> st1 = st" by (auto dest: parseJsonLog_None)
  from b have b1: "b = None \<Longrightarrow> st2 = st" by (auto dest: parseStructuredTextLog_None)
  show ?thesis
    using j b j1 b1 by (auto simp: parseLine_def split: option.splits)
qed

lemma parseLine_alike: "alike P (fst (parseLine P st l)) (fst (parseLine P st2 l))"
proof -
  have a: "rel_option (alike P)
             (if startsWith (trim l) ''{'' then fst (parseJsonLog P st l) else None)
             (if startsWith (trim l) ''{'' then fst (parseJsonLog P st2 l) else None)"
    by (simp add: parseJsonLog_alike)
  note b = parseStructuredTextLog_alike[of P st l st2]
  note c = parsePlainTextLog_alike[of P st l st2]
  show ?thesis
    unfolding parseLine_fst using a b c
    by (auto split: option.splits simp: option_rel_Some1 option_rel_Some2)
qed

lemma parseLines_alike:
  "list_all2 (alike P) (fst (parseLines P st lines)) (fst (parseLines P st2 lines))"
proof (induction lines arbitrary: st st2)
  case Nil
  show ?case by simp
next
  case (Cons l lines)
  from parseLine_alike[of P st l st2]
    Cons.IH[of "snd (parseLine P st l)" "snd (parseLine P st2 l)"]
  show ?case by (simp add: split_beta)
qed

lemma alike_datable: "alike P e e2 \<Longrightarrow> datable P e = datable P e2"
  by (auto simp: alike_def stampedNow_def datable_def)

lemma parseLoop_total:
  assumes "\<forall>e \<in> set (fst (parseLines P st lines)). datable P e"
  shows "\<exists>r. parseLoop P lines es ls mn mx st = (Inr r, snd (parseLines P st lines))"
  using assms
proof (induction lines arbitrary: es ls mn mx st)
  case Nil
  show ?case by simp
next
  case (Cons l lines)
  obtain e st1 where p: "parseLine P st l = (e, st1)" by (cases "parseLine P st l") auto
  with Cons.prems have d: "datable P e"
    and r: "\<forall>x \<in> set (fst (parseLines P st1 lines)). datable P x"
    by (simp_all add: split_beta)
  from d obtain t where t: "getTime P (dt e) = Inr t"
    by (auto simp: datable_def split: sum.splits)
  show ?case
  proof (cases t)
    case None
    with p t Cons.IH[OF r, of "es @ [e]" "List.insert (level e) ls" mn mx]
    show ?thesis by (simp add: split_beta)
  next
    case (Some d)
    with p t Cons.IH[OF r, of "es @ [e]" "List.insert (level e) ls" "lowerDate mn d" "upperDate mx d"]
    show ?thesis by (simp add: split_beta)
  qed
qed

lemma parseLogFile_returns:
  "(\<exists>r. fst (parseLogFile P st c) = Inr r) \<longleftrightarrow>
     (\<forall>e \<in> set (fst (parseLines P st (retainedLines c))). datable P e)"
proof
  assume "\<exists>r. fst (parseLogFile P st c) = Inr r"
  then obtain r st' where "parseLogFile P st c = (Inr r, st')"
    by (cases "parseLogFile P st c") auto
  from parseLogFile_Inr[OF this]
  show "\<forall>e \<in> set (fst (parseLines P st (retainedLines c))). datable P e" by simp
next
  assume "\<forall>e \<in> set (fst (parseLines P st (retainedLines c))). datable P e"
  from parseLoop_total[OF this, of "[]" "[]" None None]
  show "\<exists>r. fst (parseLogFile P st c) = Inr r"
    by (auto simp: parseLogFile_def split: prod.splits)
qed

lemma set_sortLevels: "set (sortLevels ls) = set ls"
proof -
  have "l \<in> set [Debug, Error, Fatal, Info, Warn]" for l by (cases l) simp_all
  then have "set (sortLevels ls) = {l. l \<in> set ls}"
    unfolding sortLevels_def set_filter by blast
  then show ?thesis by simp
qed

lemma sortLevels_set: "set ls = set ls2 \<Longrightarrow> sortLevels ls = sortLevels ls2"
  by (simp add: sortLevels_def)

lemma alike_levels:
  "list_all2 (alike P) xs ys \<Longrightarrow> map level xs = map level ys"
  by (induction rule: list_all2_induct) (simp_all add: alike_def content_def)

lemma filterLogs_idem: "filterLogs P (filterLogs P es s l) s l = filterLogs P es s l"
  by (simp add: filterLogs_def)

text \<open>
  Claim C9, as amended. \<open>filterLogs\<close> and \<open>bucketize\<close> have no state among their
  arguments and results: they are functions of their parameters (and filtering twice is
  filtering once). \<open>parseLogFile\<close> reads and advances the identifier counter and reads
  the clock. Two invocations on the same input, from any two module states, throw alike
  or return alike: the same number of entries in the same order, equal in level, message,
  pid, hostname, message_field, data and raw, and equal in \<open>dt\<close> unless both hold the text
  of a clock reading, and the same list of levels.
\<close>

theorem parseLogFile_repeat:
  "(case (fst (parseLogFile P st c), fst (parseLogFile P st2 c)) of
      (Inr r, Inr r2) \<Rightarrow> list_all2 (alike P) (entries r) (entries r2) \<and> levels r = levels r2
    | (Inl err, Inl err2) \<Rightarrow> err = err2
    | _ \<Rightarrow> False)
   \<and> filterLogs P (filterLogs P es s l) s l = filterLogs P es s l"
proof -
  let ?a = "fst (parseLines P st (retainedLines c))"
  let ?b = "fst (parseLines P st2 (retainedLines c))"
  have al: "list_all2 (alike P) ?a ?b" by (rule parseLines_alike)
  then have "(\<forall>e \<in> set ?a. datable P e) \<longleftrightarrow> (\<forall>e \<in> set ?b. datable P e)"
    by (induction rule: list_all2_induct) (auto dest: alike_datable)
  then have same: "(\<exists>r. fst (parseLogFile P st c) = Inr r) \<longleftrightarrow> (\<exists>r. fst (parseLogFile P st2 c) = Inr r)"
    by (simp add: parseLogFile_returns)
  have "case (fst (parseLogFile P st c), fst (parseLogFile P st2 c)) of
      (Inr r, Inr r2) \<Rightarrow> list_all2 (alike P) (entries r) (entries r2) \<and> levels r = levels r2
    | (Inl err, Inl err2) \<Rightarrow> err = err2
    | _ \<Rightarrow> False"
  proof (cases "fst (parseLogFile P st c)")
    case (Inl err)
    with same obtain err2 where "fst (parseLogFile P st2 c) = Inl err2"
      by (cases "fst (parseLogFile P st2 c)") auto
    with Inl show ?thesis by (cases err; cases err2) simp
  next
    case (Inr r)
    with same obtain r2 where r2: "fst (parseLogFile P st2 c) = Inr r2" by auto
    from Inr obtain st' where p: "parseLogFile P st c = (Inr r, st')"
      by (cases "parseLogFile P st c") auto
    from r2 obtain st2' where p2: "parseLogFile P st2 c = (Inr r2, st2')"
      by (cases "parseLogFile P st2 c") auto
    from parseLogFile_Inr[OF p] parseLogFile_Inr[OF p2] have
      e: "entries r = ?a" "entries r2 = ?b" and
      l: "set (levels r) = level ` set (entries r)" "set (levels r2) = level ` set (entries r2)"
      by simp_all
    from al e have al': "list_all2 (alike P) (entries r) (entries r2)" by simp
    then have "map level (entries r) = map level (entries r2)" by (rule alike_levels)
    then have "level ` set (entries r) = level ` set (entries r2)" by (metis set_map)
    with l have sl: "set (levels r) = set (levels r2)" by simp
    have "levels r = levels r2"
    proof -
      from p obtain ls where a: "levels r = sortLevels ls"
        by (auto simp: parseLogFile_def split: prod.splits sum.splits)
      from p2 obtain ls2 where b: "levels r2 = sortLevels ls2"
        by (auto simp: parseLogFile_def split: prod.splits sum.splits)
      from sl have "set ls = set ls2" unfolding a b set_sortLevels .
      then show ?thesis unfolding a b by (rule sortLevels_set)
    qed
    with al' Inr r2 show ?thesis by simp
  qed
  then show ?thesis by (simp add: filterLogs_idem)
qed

text \<open>
  The claim as first stated has two invocations on the same input return the same
  identifiers. The second invocation in a process continues the counter, even while the
  clock stands still.
\<close>

theorem parseLogFile_repeat_counterexample:
  "parseLogFile samplePlatform freshState ''plain text without a date'' =
     (Inr \<lparr>entries = [plainEntry], levels = [Info],
           dateRange = Some (1767991929651, 1767991929651)\<rparr>,
      \<lparr>idCounter = 1, clockReads = 2\<rparr>) \<and>
   parseLogFile samplePlatform \<lparr>idCounter = 1, clockReads = 2\<rparr> ''plain text without a date'' =
     (Inr \<lparr>entries = [plainEntry\<lparr>idE := ''log-1767991929651-1''\<rparr>], levels = [Info],
           dateRange = Some (1767991929651, 1767991929651)\<rparr>,
      \<lparr>idCounter = 2, clockReads = 4\<rparr>)"
  by code_simp

section \<open>Timestamp defaults\<close>




section \<open>Evaluations at failing inputs\<close>

text \<open>
  Claim C1. The content is one retained line, a structured record whose \<open>dt\<close> field is
  the object \<^verbatim>\<open>{"toString":1}\<close>. \<open>parseJsonLog\<close> returns an entry with that object as
  \<open>dt\<close>; constructing its date in the loop of \<open>parseLogFile\<close> throws, and \<open>parseLogFile\<close>
  returns no entries but the error.
\<close>

theorem parseLogFile_throws:
  "retainedLines badDateLine = [badDateLine] \<and>
   JSON_parse samplePlatform badDateLine = Some badDateRecord \<and>
   map_option dt (fst (parseJsonLog samplePlatform freshState badDateLine))
     = Some (JObj [(''toString'', JNum 1)]) \<and>
   getTime samplePlatform (JObj [(''toString'', JNum 1)]) = Inl TypeError \<and>
   fst (parseLogFile samplePlatform freshState badDateLine) = Inl TypeError"
  by code_simp

text \<open>
  Claim C6. The line starts with a timestamp in the web-server form, which the extractor
  finds and returns normalised. The normalised text does not occur in the line, so
  nothing is removed: the message is the whole line, timestamp included, and so is the
  message of a line whose level tag follows such a timestamp. A leading timestamp in the
  ISO form or in the space-separated form is removed, and the level tag after it.
\<close>

theorem plain_message_keeps_timestamp:
  "extractTimestamp ''09/Jan/2026:20:52:09 WARN disk at 90%'' = Some ''2026-01-09T20:52:09Z'' \<and>
   map_sum id (\<lambda>r. map message (entries r))
     (fst (parseLogFile samplePlatform freshState ''09/Jan/2026:20:52:09 WARN disk at 90%''))
     = Inr [''09/Jan/2026:20:52:09 WARN disk at 90%''] \<and>
   cleanMessage ''09/Jan/2026:20:52:09 [ERROR] upstream timed out''
     = ''09/Jan/2026:20:52:09 [ERROR] upstream timed out'' \<and>
   cleanMessage ''2026-01-09T20:52:09Z [ERROR] upstream timed out'' = ''upstream timed out'' \<and>
   cleanMessage ''2026-01-09 20:52:09 [ERROR] upstream timed out'' = ''upstream timed out''"
  by code_simp

end
